theory Spec2Isabelle
  imports Main
begin

section \<open>Text, characters and the string methods used by app.py\<close>

text \<open>
  Python text is modelled as \<^typ>\<open>string\<close>: a list of characters, each a code point
  below 256. The character tests below are the ones CPython applies to such code points.
\<close>

definition code :: "char \<Rightarrow> nat" where
  "code c = of_char c"

definition is_digit :: "char \<Rightarrow> bool" where
  \<comment> \<open>\<open>\d\<close>: a decimal digit.\<close>
  "is_digit c = (48 \<le> code c \<and> code c \<le> 57)"

definition is_upper :: "char \<Rightarrow> bool" where
  \<comment> \<open>\<open>A-Z\<close>\<close>
  "is_upper c = (65 \<le> code c \<and> code c \<le> 90)"

definition is_lower :: "char \<Rightarrow> bool" where
  \<comment> \<open>\<open>a-z\<close>\<close>
  "is_lower c = (97 \<le> code c \<and> code c \<le> 122)"

definition is_space :: "char \<Rightarrow> bool" where
  \<comment> \<open>\<open>\s\<close> and \<open>str.isspace\<close>: tab to carriage return, the four separators
      0x1C to 0x1F, space, NEL and the no-break space.\<close>
  "is_space c = ((9 \<le> code c \<and> code c \<le> 13) \<or> (28 \<le> code c \<and> code c \<le> 32)
                 \<or> code c = 133 \<or> code c = 160)"

definition is_word :: "char \<Rightarrow> bool" where
  \<comment> \<open>The word characters of \<open>\b\<close>: alphanumeric (letters, digits and the numeric
      characters of the Latin-1 block) or the underscore.\<close>
  "is_word c = (is_digit c \<or> is_upper c \<or> is_lower c \<or> code c = 95
                \<or> code c = 170 \<or> code c = 178 \<or> code c = 179 \<or> code c = 181
                \<or> (185 \<le> code c \<and> code c \<le> 186) \<or> (188 \<le> code c \<and> code c \<le> 190)
                \<or> (192 \<le> code c \<and> code c \<le> 214) \<or> (216 \<le> code c \<and> code c \<le> 246)
                \<or> 248 \<le> code c)"

definition lower :: "char \<Rightarrow> char" where
  \<comment> \<open>Case folding as far as the ASCII letters of the section headers need it.\<close>
  "lower c = (if is_upper c then char_of (code c + 32) else c)"

definition NL :: char where
  "NL = CHR 0x0A"

definition strip :: "string \<Rightarrow> string" where
  \<comment> \<open>\<open>s.strip()\<close>\<close>
  "strip s = rev (dropWhile is_space (rev (dropWhile is_space s)))"

definition strip_chars :: "string \<Rightarrow> string \<Rightarrow> string" where
  \<comment> \<open>\<open>s.strip(chars)\<close>: every leading and trailing character that occurs in
      \<open>chars\<close> is removed.\<close>
  "strip_chars chars s =
     rev (dropWhile (\<lambda>c. c \<in> set chars) (rev (dropWhile (\<lambda>c. c \<in> set chars) s)))"

fun replace_char :: "char \<Rightarrow> string \<Rightarrow> string \<Rightarrow> string" where
  \<comment> \<open>\<open>s.replace(c, new)\<close> for a one-character \<open>c\<close>\<close>
  "replace_char c new [] = []"
| "replace_char c new (x # xs) =
     (if x = c then new @ replace_char c new xs else x # replace_char c new xs)"

fun join :: "string \<Rightarrow> string list \<Rightarrow> string" where
  \<comment> \<open>\<open>sep.join(xs)\<close>\<close>
  "join sep [] = []"
| "join sep [x] = x"
| "join sep (x # y # ys) = x @ sep @ join sep (y # ys)"

section \<open>The regular expressions of app.py and their backtracking matcher\<close>

text \<open>
  The constructs that the three patterns of app.py use. A repetition is always of a
  single-character item, as in the patterns.
\<close>

datatype regex =
    Eps
  | In "char \<Rightarrow> bool"                          \<comment> \<open>one character of a class\<close>
  | Then regex regex                          \<comment> \<open>concatenation\<close>
  | Or regex regex                            \<comment> \<open>\<open>a|b\<close>, the left branch first\<close>
  | Optional regex                            \<comment> \<open>\<open>(?:a)?\<close>, greedy\<close>
  | MaxRepeat nat "nat option" "char \<Rightarrow> bool"   \<comment> \<open>\<open>x{m,n}\<close>, greedy\<close>
  | MinRepeat nat "nat option" "char \<Rightarrow> bool"   \<comment> \<open>\<open>x{m,n}?\<close>, lazy\<close>
  | Boundary                                  \<comment> \<open>\<open>\b\<close>\<close>
  | AtEnd                                     \<comment> \<open>\<open>$\<close> without MULTILINE\<close>
  | AssertAhead regex                         \<comment> \<open>\<open>(?=a)\<close>\<close>
  | Group regex                               \<comment> \<open>capturing group 1\<close>

text \<open>
  A matcher state: the character before the current position (none at the start of the
  text), the text from the current position on, and what group 1 has captured.
\<close>

type_synonym mstate = "char option \<times> string \<times> string option"

fun advance :: "nat \<Rightarrow> mstate \<Rightarrow> mstate" where
  "advance 0 st = st"
| "advance (Suc n) (p, [], g) = (p, [], g)"
| "advance (Suc n) (p, c # cs, g) = advance n (Some c, cs, g)"

fun run_length :: "(char \<Rightarrow> bool) \<Rightarrow> nat option \<Rightarrow> string \<Rightarrow> nat" where
  \<comment> \<open>How many characters of the class stand at the front of the text, at most the bound.\<close>
  "run_length P (Some 0) cs = 0"
| "run_length P bound [] = 0"
| "run_length P bound (c # cs) =
     (if P c then Suc (run_length P (map_option (\<lambda>n. n - 1) bound) cs) else 0)"

definition at_boundary :: "char option \<Rightarrow> string \<Rightarrow> bool" where
  "at_boundary p cs =
     ((case p of None \<Rightarrow> False | Some c \<Rightarrow> is_word c)
       \<noteq> (case cs of [] \<Rightarrow> False | c # _ \<Rightarrow> is_word c))"

text \<open>
  \<open>matches r st\<close> lists the states in which \<open>r\<close> can end when started in \<open>st\<close>, in the
  order in which the backtracking matcher tries them: the head is its first choice.
\<close>

fun matches :: "regex \<Rightarrow> mstate \<Rightarrow> mstate list" where
  "matches Eps st = [st]"
| "matches (In P) (p, cs, g) =
     (case cs of [] \<Rightarrow> [] | c # cs' \<Rightarrow> if P c then [(Some c, cs', g)] else [])"
| "matches (Then a b) st = concat (map (matches b) (matches a st))"
| "matches (Or a b) st = matches a st @ matches b st"
| "matches (Optional a) st = matches a st @ [st]"
| "matches (MaxRepeat m n P) (p, cs, g) =
     (let k = run_length P n cs
      in map (\<lambda>j. advance j (p, cs, g)) (rev [m ..< Suc k]))"
| "matches (MinRepeat m n P) (p, cs, g) =
     (let k = run_length P n cs
      in map (\<lambda>j. advance j (p, cs, g)) [m ..< Suc k])"
| "matches Boundary (p, cs, g) = (if at_boundary p cs then [(p, cs, g)] else [])"
| "matches AtEnd (p, cs, g) = (if cs = [] \<or> cs = [NL] then [(p, cs, g)] else [])"
| "matches (AssertAhead a) st = (if matches a st = [] then [] else [st])"
| "matches (Group a) (p, cs, g) =
     map (\<lambda>(p', cs', g'). (p', cs', Some (take (length cs - length cs') cs)))
         (matches a (p, cs, g))"

definition match_at :: "regex \<Rightarrow> char option \<Rightarrow> string \<Rightarrow> mstate option" where
  \<comment> \<open>The match of the pattern that starts exactly here, if there is one.\<close>
  "match_at r p cs = (case matches r (p, cs, None) of [] \<Rightarrow> None | st # _ \<Rightarrow> Some st)"

fun seq :: "regex list \<Rightarrow> regex" where
  "seq [] = Eps"
| "seq (r # rs) = Then r (seq rs)"

definition lit_i :: "string \<Rightarrow> regex" where
  \<comment> \<open>literal text under IGNORECASE\<close>
  "lit_i s = seq (map (\<lambda>c. In (\<lambda>d. lower d = lower c)) s)"

fun search_from :: "regex \<Rightarrow> char option \<Rightarrow> string \<Rightarrow> mstate option" where
  \<comment> \<open>\<open>re.search\<close>: the match at the leftmost position that has one.\<close>
  "search_from r p [] = match_at r p []"
| "search_from r p (c # cs) =
     (case match_at r p (c # cs) of
        Some st \<Rightarrow> Some st
      | None \<Rightarrow> search_from r (Some c) cs)"

definition search :: "regex \<Rightarrow> string \<Rightarrow> mstate option" where
  "search r s = search_from r None s"

function findall_from :: "regex \<Rightarrow> char option \<Rightarrow> string \<Rightarrow> string list" where
  \<comment> \<open>\<open>re.findall\<close> for a pattern without groups: the matched texts, left to right,
      each search resuming where the last match ended.\<close>
  "findall_from r p [] = (case match_at r p [] of None \<Rightarrow> [] | Some _ \<Rightarrow> [[]])"
| "findall_from r p (c # cs) =
     (case match_at r p (c # cs) of
        None \<Rightarrow> findall_from r (Some c) cs
      | Some (p', cs', g) \<Rightarrow>
          if length cs' < length (c # cs)
          then take (length (c # cs) - length cs') (c # cs) # findall_from r p' cs'
          else [] # findall_from r (Some c) cs)"
  by pat_completeness auto
termination
  by (relation "measure (\<lambda>(r, p, cs). length cs)") auto

definition findall :: "regex \<Rightarrow> string \<Rightarrow> string list" where
  "findall r s = findall_from r None s"

section \<open>Errors, dictionaries and sets\<close>

datatype exn =
    ModelError string      \<comment> \<open>whatever the model call raised\<close>
  | ReadError string       \<comment> \<open>whatever reading the spreadsheet raised\<close>
  | AttributeError         \<comment> \<open>a method called on \<open>None\<close>\<close>
  | KeyError string        \<comment> \<open>a dictionary read at an absent key\<close>

definition and_then :: "exn + 'a \<Rightarrow> ('a \<Rightarrow> exn + 'b) \<Rightarrow> exn + 'b" where
  \<comment> \<open>one statement after another: an exception of the first ends both\<close>
  "and_then x f = (case x of Inl e \<Rightarrow> Inl e | Inr v \<Rightarrow> f v)"

definition getitem :: "(string \<rightharpoonup> 'a) \<Rightarrow> string \<Rightarrow> exn + 'a" where
  \<comment> \<open>\<open>d[k]\<close>\<close>
  "getitem d k = (case d k of None \<Rightarrow> Inl (KeyError k) | Some v \<Rightarrow> Inr v)"

definition get_default :: "(string \<rightharpoonup> 'a) \<Rightarrow> string \<Rightarrow> 'a \<Rightarrow> 'a" where
  \<comment> \<open>\<open>d.get(k, default)\<close>\<close>
  "get_default d k v = (case d k of None \<Rightarrow> v | Some w \<Rightarrow> w)"

text \<open>
  \<open>list(set(xs))\<close> holds each element of \<open>xs\<close> once, in the iteration order of the hash
  table, which the language leaves open. The order is a parameter of the model: from the
  distinct elements it gives the positions at which \<open>arrange\<close> picks them, so every
  order of the elements is some value of the parameter and every value is an order.
\<close>

type_synonym set_order = "string list \<Rightarrow> nat list"

fun arrange :: "nat list \<Rightarrow> 'a list \<Rightarrow> 'a list" where
  "arrange [] xs = xs"
| "arrange (k # ks) xs =
     (if xs = [] then []
      else xs ! (k mod length xs)
           # arrange ks (take (k mod length xs) xs @ drop (Suc (k mod length xs)) xs))"

definition list_of_set :: "set_order \<Rightarrow> string list \<Rightarrow> string list" where
  "list_of_set ord xs = arrange (ord (remdups xs)) (remdups xs)"

section \<open>AdvancedContentAnalyzer\<close>

subsection \<open>extract_contact_info\<close>

definition separator :: "char \<Rightarrow> bool" where
  \<comment> \<open>\<open>[-.\s]\<close>\<close>
  "separator c = (c = CHR ''-'' \<or> c = CHR ''.'' \<or> is_space c)"

definition phone_pattern :: regex where
  \<comment> \<open>\<open>\b(?:\+\d{1,3}[-.\s]?)?(?:\(\d{3}\)|\d{3})[-.\s]?\d{3}[-.\s]?\d{4}\b\<close>\<close>
  "phone_pattern = seq
     [Boundary,
      Optional (seq [In (\<lambda>c. c = CHR ''+''), MaxRepeat 1 (Some 3) is_digit,
                     MaxRepeat 0 (Some 1) separator]),
      Or (seq [In (\<lambda>c. c = CHR ''(''), MaxRepeat 3 (Some 3) is_digit, In (\<lambda>c. c = CHR '')'')])
         (MaxRepeat 3 (Some 3) is_digit),
      MaxRepeat 0 (Some 1) separator,
      MaxRepeat 3 (Some 3) is_digit,
      MaxRepeat 0 (Some 1) separator,
      MaxRepeat 4 (Some 4) is_digit,
      Boundary]"

definition local_char :: "char \<Rightarrow> bool" where
  \<comment> \<open>\<open>[A-Za-z0-9._%+-]\<close>\<close>
  "local_char c = (is_upper c \<or> is_lower c \<or> is_digit c \<or> c \<in> set ''._%+-'')"

definition domain_char :: "char \<Rightarrow> bool" where
  \<comment> \<open>\<open>[A-Za-z0-9.-]\<close>\<close>
  "domain_char c = (is_upper c \<or> is_lower c \<or> is_digit c \<or> c \<in> set ''.-'')"

definition tld_char :: "char \<Rightarrow> bool" where
  \<comment> \<open>\<open>[A-Z|a-z]\<close>\<close>
  "tld_char c = (is_upper c \<or> c = CHR ''|'' \<or> is_lower c)"

definition email_pattern :: regex where
  \<comment> \<open>\<open>\b[A-Za-z0-9._%+-]+@[A-Za-z0-9.-]+\.[A-Z|a-z]{2,}\b\<close>\<close>
  "email_pattern = seq
     [Boundary,
      MaxRepeat 1 None local_char,
      In (\<lambda>c. c = CHR ''@''),
      MaxRepeat 1 None domain_char,
      In (\<lambda>c. c = CHR ''.''),
      MaxRepeat 2 None tld_char,
      Boundary]"

definition extract_contact_info :: "set_order \<Rightarrow> string \<Rightarrow> (string \<rightharpoonup> string list)" where
  "extract_contact_info ord content =
     (let phones = findall phone_pattern content;
          emails = findall email_pattern content
      in [''phones'' \<mapsto> list_of_set ord phones,
          ''emails'' \<mapsto> list_of_set ord emails])"

subsection \<open>_create_empty_result and _parse_detailed_response\<close>

type_synonym result = "string \<rightharpoonup> string"

definition create_empty_result :: result where
  "create_empty_result =
     [''primary_services'' \<mapsto> '''',
      ''secondary_services'' \<mapsto> '''',
      ''additional_services'' \<mapsto> '''',
      ''phones'' \<mapsto> '''',
      ''emails'' \<mapsto> '''']"

definition service_sections :: "(string \<times> string) list" where
  "service_sections =
     [(''primary_services'', ''Primary Services:''),
      (''secondary_services'', ''Secondary Services:''),
      (''additional_services'', ''Additional Services:'')]"

definition any_header :: regex where
  \<comment> \<open>\<open>Primary Services:|Secondary Services:|Additional Services:|$\<close>\<close>
  "any_header =
     Or (lit_i ''Primary Services:'')
        (Or (lit_i ''Secondary Services:'')
            (Or (lit_i ''Additional Services:'') AtEnd))"

definition section_pattern :: "string \<Rightarrow> regex" where
  \<comment> \<open>\<open>{section_header}(.*?)(?=Primary Services:|Secondary Services:|Additional Services:|$)\<close>
      under DOTALL and IGNORECASE\<close>
  "section_pattern section_header =
     seq [lit_i section_header, Group (MinRepeat 0 None (\<lambda>c. True)), AssertAhead any_header]"

definition tidy :: "string option \<Rightarrow> exn + string" where
  \<comment> \<open>\<open>section_match.group(1).strip().strip('[]').replace('\n', ', ')\<close>\<close>
  "tidy g = (case g of
               None \<Rightarrow> Inl AttributeError
             | Some body \<Rightarrow> Inr (replace_char NL '', '' (strip_chars ''[]'' (strip body))))"

fun parse_sections :: "(string \<times> string) list \<Rightarrow> string \<Rightarrow> result \<Rightarrow> exn + result" where
  \<comment> \<open>the loop over \<open>service_sections.items()\<close>\<close>
  "parse_sections [] response result = Inr result"
| "parse_sections ((key, section_header) # rest) response result =
     (case search (section_pattern section_header) response of
        None \<Rightarrow> parse_sections rest response result
      | Some (p, cs, g) \<Rightarrow>
          and_then (tidy g) (\<lambda>v. parse_sections rest response (result(key \<mapsto> v))))"

definition parse_detailed_response :: "set_order \<Rightarrow> string \<Rightarrow> string \<Rightarrow> exn + result" where
  "parse_detailed_response ord response original_content =
     and_then (parse_sections service_sections response create_empty_result) (\<lambda>result.
       let contact_info = extract_contact_info ord original_content
       in and_then (getitem contact_info ''phones'') (\<lambda>phones.
          and_then (getitem contact_info ''emails'') (\<lambda>emails.
            Inr (result(''phones'' \<mapsto> join '', '' phones,
                        ''emails'' \<mapsto> join '', '' emails)))))"

subsection \<open>analyze_content\<close>

definition indent :: string where
  "indent = replicate 8 (CHR '' '')"

definition prompt :: "string \<Rightarrow> string" where
  \<comment> \<open>the f-string of \<open>analyze_content\<close>, line by line\<close>
  "prompt content = concat
     [[NL],
      indent, ''Thoroughly analyze this car service center description and extract detailed information:'', [NL],
      [NL],
      indent, ''Description: '', content, [NL],
      [NL],
      indent, ''Categorize services into:'', [NL],
      indent, ''1. Primary Services: Core, main services the center specializes in'', [NL],
      indent, ''2. Secondary Services: Additional, supporting services'', [NL],
      indent, ''3. Additional Services: Supplementary or optional services'', [NL],
      [NL],
      indent, ''Provide the output in this structured format:'', [NL],
      indent, ''Primary Services: [List primary services]'', [NL],
      indent, ''Secondary Services: [List secondary services]'', [NL],
      indent, ''Additional Services: [List additional services]'', [NL],
      indent]"

text \<open>
  The model is outside the program: asked a prompt, it returns the text of its response
  or raises. What it answers may depend on the prompts it was sent before, so it is a
  function of those and of the prompt, and the list of prompts sent so far is the state
  that a call extends.
\<close>

type_synonym model = "string list \<Rightarrow> string \<Rightarrow> exn + string"

definition generate_content :: "model \<Rightarrow> string list \<Rightarrow> string \<Rightarrow> (exn + string) \<times> string list" where
  "generate_content m sent p = (m sent p, sent @ [p])"

definition analyze_content :: "model \<Rightarrow> set_order \<Rightarrow> string list \<Rightarrow> string \<Rightarrow> result \<times> string list" where
  "analyze_content m ord sent content =
     (case generate_content m sent (prompt content) of
        (Inl e, sent') \<Rightarrow> (create_empty_result, sent')
      | (Inr text, sent') \<Rightarrow>
          (case parse_detailed_response ord text content of
             Inl e \<Rightarrow> (create_empty_result, sent')
           | Inr result \<Rightarrow> (result, sent')))"

subsection \<open>process_file\<close>

datatype cell =
    Str string      \<comment> \<open>a text cell\<close>
  | NaN             \<comment> \<open>an empty cell\<close>
  | Other string    \<comment> \<open>any other value, with the text \<open>str\<close> gives for it\<close>

fun py_str :: "cell \<Rightarrow> string" where
  "py_str (Str s) = s"
| "py_str NaN = ''nan''"
| "py_str (Other s) = s"

type_synonym row = "string \<rightharpoonup> cell"

definition processed_row :: "row \<Rightarrow> result \<Rightarrow> exn + row" where
  \<comment> \<open>the dictionary built for one row\<close>
  "processed_row row analysis =
     and_then (getitem analysis ''primary_services'') (\<lambda>primary.
     and_then (getitem analysis ''secondary_services'') (\<lambda>secondary.
     and_then (getitem analysis ''additional_services'') (\<lambda>additional.
     and_then (getitem analysis ''phones'') (\<lambda>phones.
     and_then (getitem analysis ''emails'') (\<lambda>emails.
       Inr [''Name'' \<mapsto> get_default row ''Name'' (Str ''''),
            ''Address'' \<mapsto> get_default row ''Address'' (Str ''''),
            ''Rating_text'' \<mapsto> get_default row ''Rating_text'' (Str ''''),
            ''Opening_Time'' \<mapsto> get_default row ''Opening_Time'' (Str ''''),
            ''Phone_Number'' \<mapsto> get_default row ''Phone_Number'' (Str ''''),
            ''GMAP'' \<mapsto> get_default row ''GMAP'' (Str ''''),
            ''Website'' \<mapsto> get_default row ''Website'' (Str ''''),
            ''Primary_Services'' \<mapsto> Str primary,
            ''Secondary_Services'' \<mapsto> Str secondary,
            ''Additional_Services'' \<mapsto> Str additional,
            ''Extracted_Phones'' \<mapsto> Str phones,
            ''Extracted_Emails'' \<mapsto> Str emails])))))"

definition all_content :: "row \<Rightarrow> string" where
  \<comment> \<open>\<open>str(row.get('All_Content', ''))\<close>\<close>
  "all_content row = py_str (get_default row ''All_Content'' (Str ''''))"

definition analysis_of :: "model \<Rightarrow> set_order \<Rightarrow> string list \<Rightarrow> row \<Rightarrow> result \<times> string list" where
  \<comment> \<open>the \<open>if all_content.strip()\<close> of the loop body\<close>
  "analysis_of m ord sent row =
     (if strip (all_content row) \<noteq> []
      then analyze_content m ord sent (all_content row)
      else (create_empty_result, sent))"

fun process_rows ::
  "model \<Rightarrow> set_order \<Rightarrow> row list \<Rightarrow> row list \<times> string list \<Rightarrow> exn + (row list \<times> string list)" where
  \<comment> \<open>the loop over \<open>df.iterrows()\<close>, with \<open>analyzed_data\<close> and the prompts sent as its
      state; the logging, which has no part in the result, is left out\<close>
  "process_rows m ord [] (analyzed_data, sent) = Inr (analyzed_data, sent)"
| "process_rows m ord (row # rows) (analyzed_data, sent) =
     (case analysis_of m ord sent row of
        (analysis, sent') \<Rightarrow>
          (case processed_row row analysis of
             Inl e \<Rightarrow> Inl e
           | Inr out \<Rightarrow> process_rows m ord rows (analyzed_data @ [out], sent')))"

definition process_file ::
  "model \<Rightarrow> set_order \<Rightarrow> exn + row list \<Rightarrow> exn + (row list \<times> string list)" where
  \<comment> \<open>\<open>read_excel\<close> gives the rows or raises; an error is logged and raised again. The
      result is the output rows together with the prompts sent to the model.\<close>
  "process_file m ord read_excel =
     (case read_excel of
        Inl e \<Rightarrow> Inl e
      | Inr df \<Rightarrow> process_rows m ord df ([], []))"

section \<open>What the response parser computes, stated on the text\<close>

text \<open>
  The notions in which the behaviour of the parser is stated: a header read without
  regard to case, the text after its first occurrence, and the part of that text that
  ends where the look-ahead of the pattern first holds.
\<close>

fun starts_with_i :: "string \<Rightarrow> string \<Rightarrow> bool" where
  \<comment> \<open>the text begins with the header, read without regard to case\<close>
  "starts_with_i [] s = True"
| "starts_with_i (c # h) [] = False"
| "starts_with_i (c # h) (d # s) = (lower d = lower c \<and> starts_with_i h s)"

fun after_first :: "string \<Rightarrow> string \<Rightarrow> string option" where
  \<comment> \<open>what follows the first occurrence of the header, if it occurs\<close>
  "after_first h [] = (if starts_with_i h [] then Some [] else None)"
| "after_first h (c # cs) =
     (if starts_with_i h (c # cs) then Some (drop (length h) (c # cs)) else after_first h cs)"

definition marker_here :: "string \<Rightarrow> bool" where
  "marker_here s = (starts_with_i ''Primary Services:'' s \<or> starts_with_i ''Secondary Services:'' s
                    \<or> starts_with_i ''Additional Services:'' s)"

definition stop_here :: "string \<Rightarrow> bool" where
  \<comment> \<open>where the look-ahead holds: at a header, at the end, before a final line break\<close>
  "stop_here s = (marker_here s \<or> s = [] \<or> s = [NL])"

fun captured_body :: "string \<Rightarrow> string" where
  "captured_body [] = []"
| "captured_body (c # cs) = (if stop_here (c # cs) then [] else c # captured_body cs)"

definition section_field :: "string \<Rightarrow> string \<Rightarrow> string" where
  \<comment> \<open>the field of a header: the tidied body, or the empty default when it is absent\<close>
  "section_field h r =
     (case after_first h r of
        None \<Rightarrow> ''''
      | Some rest \<Rightarrow> replace_char NL '', '' (strip_chars ''[]'' (strip (captured_body rest))))"

fun occurs_i :: "string \<Rightarrow> string \<Rightarrow> bool" where
  \<comment> \<open>the header occurs somewhere in the text, read without regard to case\<close>
  "occurs_i h [] = starts_with_i h []"
| "occurs_i h (c # cs) = (starts_with_i h (c # cs) \<or> occurs_i h cs)"

definition first_at :: "string \<Rightarrow> string \<Rightarrow> nat \<Rightarrow> bool" where
  \<comment> \<open>the first occurrence of the header in \<open>r\<close> starts at position \<open>n\<close>\<close>
  "first_at h r n =
     (starts_with_i h (drop n r) \<and> list_all (\<lambda>j. \<not> starts_with_i h (drop j r)) [0 ..< n])"

definition body_end :: "string \<Rightarrow> nat \<Rightarrow> bool" where
  \<comment> \<open>\<open>k\<close> is the first position of \<open>s\<close> at which the look-ahead holds: a header
      starts there, or the text ends there, or only a final line break is left\<close>
  "body_end s k = (stop_here (drop k s) \<and> list_all (\<lambda>j. \<not> stop_here (drop j s)) [0 ..< k])"

definition final_label :: "string \<Rightarrow> string" where
  \<comment> \<open>the last label of an address: what follows its last dot\<close>
  "final_label s = rev (takeWhile (\<lambda>c. c \<noteq> CHR ''.'') (rev s))"

text \<open>The states that the lazy \<open>.*?\<close> offers, shortest first: one per suffix of the text.\<close>

fun suffix_states :: "char option \<Rightarrow> string \<Rightarrow> string option \<Rightarrow> mstate list" where
  "suffix_states p [] g = [(p, [], g)]"
| "suffix_states p (c # cs) g = (p, c # cs, g) # suffix_states (Some c) cs g"

section \<open>What the batch computes, stated on the rows\<close>

text \<open>
  The prompts that a run over the rows sends, and the output row of one input row when
  the prompts in \<open>sent\<close> have gone to the model before it.
\<close>

definition prompts_of :: "row list \<Rightarrow> string list" where
  "prompts_of rows =
     map (\<lambda>row. prompt (all_content row)) (filter (\<lambda>row. strip (all_content row) \<noteq> []) rows)"

definition row_output :: "model \<Rightarrow> set_order \<Rightarrow> string list \<Rightarrow> row \<Rightarrow> exn + row" where
  "row_output m ord sent row = processed_row row (fst (analysis_of m ord sent row))"

section \<open>Reading a run, and the inputs of the examples\<close>

definition output_cell :: "exn + (row list \<times> string list) \<Rightarrow> nat \<Rightarrow> string \<Rightarrow> cell option" where
  "output_cell run i column =
     (case run of
        Inl e \<Rightarrow> None
      | Inr (outs, sent) \<Rightarrow> if i < length outs then (outs ! i) column else None)"

definition first_seen :: set_order where
  "first_seen xs = []"

definition failing_model :: model where
  "failing_model sent p = Inl (ModelError ''unavailable'')"

definition brake_content :: string where
  "brake_content = ''Call us at 555-123-4567 or email info@example.com for brake repair.''"

definition brake_row :: row where
  "brake_row = [''Name'' \<mapsto> Str ''Brake House'', ''All_Content'' \<mapsto> Str brake_content]"

definition blank_row :: row where
  "blank_row = [''Name'' \<mapsto> Str ''Quiet Garage'', ''All_Content'' \<mapsto> Str [CHR '' '', NL]]"

definition scripted_model :: model where
  "scripted_model sent p =
     (if length sent = 1 then Inl (ModelError ''quota'')
      else Inr ''Primary Services: [Oil change]'')"

definition batch :: "row list" where
  "batch = [[''Name'' \<mapsto> Str ''A'', ''All_Content'' \<mapsto> Str ''oil''],
            [''Name'' \<mapsto> Str ''B'', ''All_Content'' \<mapsto> Str ''tyres''],
            [''Name'' \<mapsto> Str ''C'', ''All_Content'' \<mapsto> Str ''wash'']]"

fun spec_text_to_next_marker :: "string \<Rightarrow> string" where
  \<comment> \<open>As the specification words the capture: the text up to the next occurrence of
      any of the three headers, or to the end of the text.\<close>
  "spec_text_to_next_marker [] = []"
| "spec_text_to_next_marker (c # cs) =
     (if marker_here (c # cs) then [] else c # spec_text_to_next_marker cs)"

definition shuffled_response :: string where
  "shuffled_response =
     ''Additional Services: c'' @ [NL] @ ''primary services: a'' @ [NL] @ ''Secondary Services: b''"

definition field :: "exn + result \<Rightarrow> string \<Rightarrow> string option" where
  \<comment> \<open>a field of what \<open>_parse_detailed_response\<close> returned\<close>
  "field parsed key = (case parsed of Inl e \<Rightarrow> None | Inr res \<Rightarrow> res key)"

definition spec_strip_one_pair :: "string \<Rightarrow> string" where
  \<comment> \<open>As the specification words the brackets: one leading \<open>[\<close> and one trailing
      \<open>]\<close> are removed if present.\<close>
  "spec_strip_one_pair s =
     (let s1 = (case s of [] \<Rightarrow> [] | c # cs \<Rightarrow> if c = CHR ''['' then cs else c # cs)
      in if s1 \<noteq> [] \<and> last s1 = CHR '']'' then butlast s1 else s1)"

definition partial_response :: string where
  "partial_response = ''Primary Services: [Oil change]'' @ [NL] @ ''Additional Services: wash''"

definition bracketed_response :: string where
  "bracketed_response = ''Primary Services: [Oil change, Tire rotation]''"

section \<open>Properties of the matcher on the section pattern\<close>

lemma matches_lit_i_Cons:
  "matches (lit_i (c # h)) (p, s, g) =
     (case s of [] \<Rightarrow> [] | d # s' \<Rightarrow>
        if lower d = lower c then matches (lit_i h) (Some d, s', g) else [])"
  by (cases s) (simp_all add: lit_i_def)

lemma matches_lit_i:
  "matches (lit_i h) (p, s, g) =
     (if starts_with_i h s then [advance (length h) (p, s, g)] else [])"
proof (induction h arbitrary: p s)
  case Nil
  then show ?case by (simp add: lit_i_def)
next
  case (Cons c h)
  show ?case
    by (cases s) (simp_all add: matches_lit_i_Cons Cons.IH)
qed

lemma advance_rest: "n \<le> length s \<Longrightarrow> advance n (p, s, g) = (fst (advance n (p, s, g)), drop n s, g)"
proof (induction n arbitrary: p s)
  case 0
  then show ?case by simp
next
  case (Suc n)
  then show ?case by (cases s) simp_all
qed

lemma starts_with_i_length: "starts_with_i h s \<Longrightarrow> length h \<le> length s"
  by (induction h s rule: starts_with_i.induct) simp_all

lemma run_length_any: "run_length (\<lambda>c. True) None s = length s"
  by (induction s) simp_all

lemma map_advance_suffix_states:
  "map (\<lambda>j. advance j (p, s, g)) [0 ..< Suc (length s)] = suffix_states p s g"
proof (induction s arbitrary: p)
  case Nil
  show ?case by simp
next
  case (Cons c cs)
  have "[0 ..< Suc (Suc (length cs))] = 0 # map Suc [0 ..< Suc (length cs)]"
    by (metis map_Suc_upt upt_conv_Cons zero_less_Suc)
  then have "map (\<lambda>j. advance j (p, c # cs, g)) [0 ..< Suc (length (c # cs))]
      = (p, c # cs, g) # map (\<lambda>j. advance j (Some c, cs, g)) [0 ..< Suc (length cs)]"
    by (simp add: o_def del: upt_Suc)
  then show ?case
    by (simp only: Cons.IH suffix_states.simps)
qed

lemma matches_lazy_any:
  "matches (MinRepeat 0 None (\<lambda>c. True)) (p, s, g) = suffix_states p s g"
  using map_advance_suffix_states [of p s g] by (simp add: run_length_any del: upt_Suc)

lemma matches_any_header: "(matches any_header (p, s, g) = []) = (\<not> stop_here s)"
  by (auto simp: any_header_def matches_lit_i stop_here_def marker_here_def)


lemma matches_lookahead:
  "matches (Then (AssertAhead any_header) Eps) (p, s, g) = (if stop_here s then [(p, s, g)] else [])"
  using matches_any_header [of p s g] by simp


lemma first_stop:
  "\<exists>p' rest.
     filter (\<lambda>(p', cs', g'). stop_here cs')
       (map (\<lambda>(p', cs', g'). (p', cs', Some (take (length (pre @ s) - length cs') (pre @ s))))
          (suffix_states p s g))
     = (p', drop (length (captured_body s)) s, Some (pre @ captured_body s)) # rest"
proof (induction s arbitrary: p pre)
  case Nil
  show ?case by (simp add: stop_here_def)
next
  case (Cons c cs)
  show ?case
  proof (cases "stop_here (c # cs)")
    case True
    then show ?thesis by simp
  next
    case False
    with Cons.IH [of "pre @ [c]" "Some c"] show ?thesis by simp
  qed
qed

lemma concat_map_lookahead:
  "concat (map (matches (Then (AssertAhead any_header) Eps)) sts)
     = filter (\<lambda>(p', cs', g'). stop_here cs') sts"
proof (induction sts)
  case Nil
  show ?case by simp
next
  case (Cons st sts)
  obtain p' cs' g' where st: "st = (p', cs', g')" by (cases st)
  show ?case
    using Cons.IH by (simp only: st list.map concat.simps matches_lookahead filter.simps prod.case split: if_splits) simp
qed

lemma matches_section:
  assumes "starts_with_i h s"
  shows "\<exists>p' rest. matches (section_pattern h) (p, s, None)
           = (p', drop (length (captured_body (drop (length h) s))) (drop (length h) s),
              Some (captured_body (drop (length h) s))) # rest"
proof -
  from assms have len: "length h \<le> length s" by (rule starts_with_i_length)
  let ?s1 = "drop (length h) s"
  obtain q where adv: "advance (length h) (p, s, None) = (q, ?s1, None)"
    using advance_rest [OF len, of p None] by blast
  let ?M = "MinRepeat 0 None (\<lambda>c. True)"
  let ?L = "Then (AssertAhead any_header) Eps"
  have "matches (section_pattern h) (p, s, None)
      = concat (map (matches (Then (Group ?M) ?L)) (matches (lit_i h) (p, s, None)))"
    by (simp only: section_pattern_def seq.simps matches.simps(3) [of "lit_i h"])
  also have "\<dots> = matches (Then (Group ?M) ?L) (q, ?s1, None)"
    using assms by (simp only: matches_lit_i adv if_True list.map concat.simps append_Nil2)
  also have "\<dots> = concat (map (matches ?L) (matches (Group ?M) (q, ?s1, None)))"
    by (simp only: matches.simps(3) [of "Group ?M"])
  also have "\<dots> = filter (\<lambda>(p', cs', g'). stop_here cs')
          (map (\<lambda>(p', cs', g'). (p', cs', Some (take (length ([] @ ?s1) - length cs') ([] @ ?s1))))
             (suffix_states q ?s1 None))"
    by (simp only: concat_map_lookahead append_Nil matches.simps(11) matches_lazy_any)
  finally show ?thesis
    using first_stop [of "[]" ?s1 q None] by (simp del: matches.simps)
qed

lemma match_at_section:
  "map_option (\<lambda>(p', cs', g'). g') (match_at (section_pattern h) p s) =
     (if starts_with_i h s then Some (Some (captured_body (drop (length h) s))) else None)"
proof (cases "starts_with_i h s")
  case False
  then show ?thesis
    by (simp add: match_at_def section_pattern_def matches_lit_i)
next
  case True
  from matches_section [OF True, of p] obtain p' rest where
    "matches (section_pattern h) (p, s, None)
       = (p', drop (length (captured_body (drop (length h) s))) (drop (length h) s),
          Some (captured_body (drop (length h) s))) # rest"
    by blast
  with True show ?thesis by (simp add: match_at_def)
qed

lemma search_from_section:
  "map_option (\<lambda>(p', cs', g'). g') (search_from (section_pattern h) p s)
     = map_option (\<lambda>rest. Some (captured_body rest)) (after_first h s)"
proof (induction s arbitrary: p)
  case Nil
  show ?case using match_at_section [of h p "[]"] by simp
next
  case (Cons c cs)
  show ?case
    using match_at_section [of h p "c # cs"] Cons.IH [of "Some c"]
    by (cases "match_at (section_pattern h) p (c # cs)") (simp_all split: if_splits)
qed

lemma search_section_cases:
  "(after_first h r = None \<and> search (section_pattern h) r = None)
   \<or> (\<exists>rest p cs. after_first h r = Some rest
         \<and> search (section_pattern h) r = Some (p, cs, Some (captured_body rest)))"
proof (cases "search (section_pattern h) r")
  case None
  then show ?thesis
    using search_from_section [of h None r] by (simp add: search_def)
next
  case (Some st)
  obtain p cs g where st: "st = (p, cs, g)" by (cases st)
  with Some show ?thesis
    using search_from_section [of h None r]
    by (cases "after_first h r") (auto simp: search_def)
qed

lemma parse_sections_result:
  assumes "distinct (map fst secs)"
  shows "\<exists>res'. parse_sections secs r res = Inr res' \<and>
           (\<forall>k. res' k = (case map_of secs k of
                            None \<Rightarrow> res k
                          | Some h \<Rightarrow>
                              (case after_first h r of
                                 None \<Rightarrow> res k
                               | Some rest \<Rightarrow>
                                   Some (replace_char NL '', '' (strip_chars ''[]'' (strip (captured_body rest)))))))"
  using assms
proof (induction secs arbitrary: res)
  case Nil
  show ?case by simp
next
  case (Cons sec secs)
  obtain key h where sec: "sec = (key, h)" by (cases sec)
  from Cons.prems sec have d: "distinct (map fst secs)" and k: "key \<notin> fst ` set secs" by auto
  from k have nk: "map_of secs key = None" by (simp add: map_of_eq_None_iff)
  from search_section_cases [of h r] show ?case
  proof
    assume a: "after_first h r = None \<and> search (section_pattern h) r = None"
    from Cons.IH [OF d, of res] obtain res' where
      r: "parse_sections secs r res = Inr res'"
         "\<forall>k. res' k = (case map_of secs k of None \<Rightarrow> res k | Some h \<Rightarrow>
                  (case after_first h r of None \<Rightarrow> res k
                   | Some rest \<Rightarrow> Some (replace_char NL '', '' (strip_chars ''[]'' (strip (captured_body rest))))))"
      by blast
    show ?thesis
      using a r nk by (auto simp: sec)
  next
    assume "\<exists>rest p cs. after_first h r = Some rest
         \<and> search (section_pattern h) r = Some (p, cs, Some (captured_body rest))"
    then obtain rest p cs where a: "after_first h r = Some rest"
      "search (section_pattern h) r = Some (p, cs, Some (captured_body rest))" by blast
    let ?v = "replace_char NL '', '' (strip_chars ''[]'' (strip (captured_body rest)))"
    from Cons.IH [OF d, of "res(key \<mapsto> ?v)"] obtain res' where
      r: "parse_sections secs r (res(key \<mapsto> ?v)) = Inr res'"
         "\<forall>k. res' k = (case map_of secs k of None \<Rightarrow> (res(key \<mapsto> ?v)) k | Some h \<Rightarrow>
                  (case after_first h r of None \<Rightarrow> (res(key \<mapsto> ?v)) k
                   | Some rest \<Rightarrow> Some (replace_char NL '', '' (strip_chars ''[]'' (strip (captured_body rest))))))"
      by blast
    have "\<And>k'. k' \<noteq> key \<Longrightarrow> (res(key \<mapsto> ?v)) k' = res k'" by simp
    show ?thesis
      using a r nk by (auto simp: sec tidy_def and_then_def split: option.splits)
  qed
qed

section \<open>Properties of the parsed result\<close>

lemma dom_create_empty_result:
  "dom create_empty_result = {''primary_services'', ''secondary_services'', ''additional_services'',
                ''phones'', ''emails''}"
  by (auto simp: create_empty_result_def)

lemma parse_sections_service:
  "\<exists>res. parse_sections service_sections r create_empty_result = Inr res \<and>
     res ''primary_services'' = Some (section_field ''Primary Services:'' r) \<and>
     res ''secondary_services'' = Some (section_field ''Secondary Services:'' r) \<and>
     res ''additional_services'' = Some (section_field ''Additional Services:'' r) \<and>
     res ''phones'' = Some '''' \<and> res ''emails'' = Some '''' \<and>
     dom res = {''primary_services'', ''secondary_services'', ''additional_services'',
                ''phones'', ''emails''}"
proof -
  have d: "distinct (map fst service_sections)" by (simp add: service_sections_def)
  from parse_sections_result [OF d, of r create_empty_result] obtain res where
    rv: "parse_sections service_sections r create_empty_result = Inr res \<and>
      (\<forall>k. res k = (case map_of service_sections k of
                            None \<Rightarrow> create_empty_result k
                          | Some h \<Rightarrow>
                              (case after_first h r of
                                 None \<Rightarrow> create_empty_result k
                               | Some rest \<Rightarrow>
                                   Some (replace_char NL '', '' (strip_chars ''[]'' (strip (captured_body rest)))))))"
    ..
  then have r: "parse_sections service_sections r create_empty_result = Inr res"
    by (rule conjunct1)
  from rv have v: "\<And>k. res k = (case map_of service_sections k of
                            None \<Rightarrow> create_empty_result k
                          | Some h \<Rightarrow>
                              (case after_first h r of
                                 None \<Rightarrow> create_empty_result k
                               | Some rest \<Rightarrow>
                                   Some (replace_char NL '', '' (strip_chars ''[]'' (strip (captured_body rest))))))"
    by (simp only:)
  have p: "res ''primary_services'' = Some (section_field ''Primary Services:'' r)"
    by (simp add: v service_sections_def create_empty_result_def section_field_def split: option.splits)
  have s: "res ''secondary_services'' = Some (section_field ''Secondary Services:'' r)"
    by (simp add: v service_sections_def create_empty_result_def section_field_def split: option.splits)
  have a: "res ''additional_services'' = Some (section_field ''Additional Services:'' r)"
    by (simp add: v service_sections_def create_empty_result_def section_field_def split: option.splits)
  have ph: "res ''phones'' = Some ''''"
    by (simp add: v service_sections_def create_empty_result_def)
  have em: "res ''emails'' = Some ''''"
    by (simp add: v service_sections_def create_empty_result_def)
  have "\<And>k. (res k = None) = (create_empty_result k = None)"
    by (simp add: v service_sections_def create_empty_result_def split: option.splits)
  then have "dom res = dom create_empty_result"
    by (simp add: dom_def)
  then have dm: "dom res = {''primary_services'', ''secondary_services'', ''additional_services'',
                ''phones'', ''emails''}"
    by (simp only: dom_create_empty_result)
  show ?thesis
    by (rule exI [of _ res]) (simp only: r p s a ph em dm simp_thms)
qed

lemma parse_detailed_response_result:
  "\<exists>res. parse_detailed_response ord r t = Inr res \<and>
     res ''primary_services'' = Some (section_field ''Primary Services:'' r) \<and>
     res ''secondary_services'' = Some (section_field ''Secondary Services:'' r) \<and>
     res ''additional_services'' = Some (section_field ''Additional Services:'' r) \<and>
     res ''phones'' = Some (join '', '' (list_of_set ord (findall phone_pattern t))) \<and>
     res ''emails'' = Some (join '', '' (list_of_set ord (findall email_pattern t))) \<and>
     dom res = {''primary_services'', ''secondary_services'', ''additional_services'',
                ''phones'', ''emails''}"
proof -
  from parse_sections_service [of r] obtain res0 where
    all: "parse_sections service_sections r create_empty_result = Inr res0 \<and>
     res0 ''primary_services'' = Some (section_field ''Primary Services:'' r) \<and>
     res0 ''secondary_services'' = Some (section_field ''Secondary Services:'' r) \<and>
     res0 ''additional_services'' = Some (section_field ''Additional Services:'' r) \<and>
     res0 ''phones'' = Some '''' \<and> res0 ''emails'' = Some '''' \<and>
     dom res0 = {''primary_services'', ''secondary_services'', ''additional_services'',
                ''phones'', ''emails''}"
    ..
  let ?res = "res0(''phones'' \<mapsto> join '', '' (list_of_set ord (findall phone_pattern t)),
                   ''emails'' \<mapsto> join '', '' (list_of_set ord (findall email_pattern t)))"
  have e: "parse_detailed_response ord r t = Inr ?res"
    using all
    by (simp add: parse_detailed_response_def and_then_def extract_contact_info_def getitem_def Let_def)
  have dm: "dom ?res = {''primary_services'', ''secondary_services'', ''additional_services'',
                ''phones'', ''emails''}"
    using all by (simp add: insert_absorb)
  have f: "?res ''primary_services'' = Some (section_field ''Primary Services:'' r)"
      "?res ''secondary_services'' = Some (section_field ''Secondary Services:'' r)"
      "?res ''additional_services'' = Some (section_field ''Additional Services:'' r)"
      "?res ''phones'' = Some (join '', '' (list_of_set ord (findall phone_pattern t)))"
      "?res ''emails'' = Some (join '', '' (list_of_set ord (findall email_pattern t)))"
    using all by simp_all
  show ?thesis
    by (rule exI [of _ ?res]) (simp only: e f dm simp_thms)
qed

section \<open>Properties of the set order\<close>

lemma arrange_set_distinct:
  "distinct xs \<Longrightarrow> distinct (arrange ks xs) \<and> set (arrange ks xs) = set xs"
proof (induction ks arbitrary: xs)
  case Nil
  then show ?case by simp
next
  case (Cons k ks)
  show ?case
  proof (cases "xs = []")
    case True
    then show ?thesis by simp
  next
    case False
    let ?i = "k mod length xs"
    let ?ys = "take ?i xs @ drop (Suc ?i) xs"
    from False have i: "?i < length xs" by simp
    then have xs: "xs = take ?i xs @ xs ! ?i # drop (Suc ?i) xs"
      by (rule id_take_nth_drop)
    from Cons.prems have "distinct (take ?i xs @ xs ! ?i # drop (Suc ?i) xs)"
      using xs by simp
    then have dys: "distinct ?ys" and notin: "xs ! ?i \<notin> set ?ys" by auto
    have sys: "set xs = insert (xs ! ?i) (set ?ys)"
      by (subst xs) auto
    from Cons.IH [OF dys] notin sys False show ?thesis by simp
  qed
qed

lemma list_of_set_distinct: "distinct (list_of_set ord xs)"
  by (simp add: list_of_set_def arrange_set_distinct)

lemma list_of_set_set: "set (list_of_set ord xs) = set xs"
  by (simp add: list_of_set_def arrange_set_distinct)

lemma arrange_Nil: "arrange ks [] = []"
  by (cases ks) simp_all

lemma arrange_single: "arrange ks [x] = [x]"
  by (cases ks) (simp_all add: arrange_Nil)

section \<open>Properties of the loop over the rows\<close>

lemma analysis_of_sent:
  "snd (analysis_of m ord sent row) = sent @ prompts_of [row]"
  by (simp add: analysis_of_def analyze_content_def generate_content_def prompts_of_def
        split: sum.splits)

lemma analysis_of_blank:
  "strip (all_content row) = [] \<Longrightarrow> analysis_of m ord sent row = (create_empty_result, sent)"
  by (simp add: analysis_of_def)

lemma analysis_of_raised:
  "strip (all_content row) \<noteq> [] \<Longrightarrow> m sent (prompt (all_content row)) = Inl e \<Longrightarrow>
   analysis_of m ord sent row = (create_empty_result, sent @ [prompt (all_content row)])"
  by (simp add: analysis_of_def analyze_content_def generate_content_def)

lemma analysis_of_returned:
  "strip (all_content row) \<noteq> [] \<Longrightarrow> m sent (prompt (all_content row)) = Inr text \<Longrightarrow>
   parse_detailed_response ord text (all_content row) = Inr res \<Longrightarrow>
   analysis_of m ord sent row = (res, sent @ [prompt (all_content row)])"
  by (simp add: analysis_of_def analyze_content_def generate_content_def)

lemma analysis_of_dom:
  "dom (fst (analysis_of m ord sent row)) =
     {''primary_services'', ''secondary_services'', ''additional_services'', ''phones'', ''emails''}"
proof (cases "strip (all_content row) = []")
  case True
  then show ?thesis by (simp add: analysis_of_blank dom_create_empty_result)
next
  case False
  show ?thesis
  proof (cases "m sent (prompt (all_content row))")
    case (Inl e)
    with False show ?thesis by (simp add: analysis_of_raised dom_create_empty_result)
  next
    case (Inr reply)
    from parse_detailed_response_result [of ord reply "all_content row"] obtain res where
      "parse_detailed_response ord reply (all_content row) = Inr res \<and>
       res ''primary_services'' = Some (section_field ''Primary Services:'' reply) \<and>
       res ''secondary_services'' = Some (section_field ''Secondary Services:'' reply) \<and>
       res ''additional_services'' = Some (section_field ''Additional Services:'' reply) \<and>
       res ''phones'' = Some (join '', '' (list_of_set ord (findall phone_pattern (all_content row)))) \<and>
       res ''emails'' = Some (join '', '' (list_of_set ord (findall email_pattern (all_content row)))) \<and>
       dom res = {''primary_services'', ''secondary_services'', ''additional_services'',
                ''phones'', ''emails''}" ..
    with False Inr show ?thesis by (simp add: analysis_of_returned)
  qed
qed

lemma processed_row_ok:
  assumes "dom analysis =
     {''primary_services'', ''secondary_services'', ''additional_services'', ''phones'', ''emails''}"
  shows "\<exists>out. processed_row row analysis = Inr out \<and>
     out ''Name'' = Some (get_default row ''Name'' (Str '''')) \<and>
     out ''Address'' = Some (get_default row ''Address'' (Str '''')) \<and>
     out ''Rating_text'' = Some (get_default row ''Rating_text'' (Str '''')) \<and>
     out ''Opening_Time'' = Some (get_default row ''Opening_Time'' (Str '''')) \<and>
     out ''Phone_Number'' = Some (get_default row ''Phone_Number'' (Str '''')) \<and>
     out ''GMAP'' = Some (get_default row ''GMAP'' (Str '''')) \<and>
     out ''Website'' = Some (get_default row ''Website'' (Str '''')) \<and>
     map_option Str (analysis ''primary_services'') = out ''Primary_Services'' \<and>
     map_option Str (analysis ''secondary_services'') = out ''Secondary_Services'' \<and>
     map_option Str (analysis ''additional_services'') = out ''Additional_Services'' \<and>
     map_option Str (analysis ''phones'') = out ''Extracted_Phones'' \<and>
     map_option Str (analysis ''emails'') = out ''Extracted_Emails''"
proof -
  have "''primary_services'' \<in> dom analysis" "''secondary_services'' \<in> dom analysis"
    "''additional_services'' \<in> dom analysis" "''phones'' \<in> dom analysis" "''emails'' \<in> dom analysis"
    by (simp_all only: assms insert_iff simp_thms)
  then obtain a b c d e where v: "analysis ''primary_services'' = Some a"
    "analysis ''secondary_services'' = Some b" "analysis ''additional_services'' = Some c"
    "analysis ''phones'' = Some d" "analysis ''emails'' = Some e"
    unfolding dom_def by (elim CollectE exE) (simp only: not_None_eq, elim exE, assumption)
  show ?thesis
    by (simp add: processed_row_def getitem_def and_then_def v)
qed

lemma row_output_ok: "\<exists>out. row_output m ord sent row = Inr out"
  using processed_row_ok [OF analysis_of_dom, of row m ord sent row]
  unfolding row_output_def by (elim exE conjE) (rule exI)

lemma prompts_of_Cons: "prompts_of (row # rows) = prompts_of [row] @ prompts_of rows"
  by (simp add: prompts_of_def)

lemma process_rows_result:
  "\<exists>outs. process_rows m ord rows (analyzed_data, sent)
             = Inr (analyzed_data @ outs, sent @ prompts_of rows) \<and>
          length outs = length rows \<and>
          (\<forall>i<length rows.
             row_output m ord (sent @ prompts_of (take i rows)) (rows ! i) = Inr (outs ! i))"
proof (induction rows arbitrary: analyzed_data sent)
  case Nil
  show ?case by (simp add: prompts_of_def)
next
  case (Cons row rows)
  obtain out where out: "row_output m ord sent row = Inr out"
    using row_output_ok [of m ord sent row] ..
  let ?sent = "sent @ prompts_of [row]"
  from Cons.IH [of "analyzed_data @ [out]" ?sent] obtain outs where
    ih: "process_rows m ord rows (analyzed_data @ [out], ?sent)
             = Inr ((analyzed_data @ [out]) @ outs, ?sent @ prompts_of rows) \<and>
          length outs = length rows \<and>
          (\<forall>i<length rows.
             row_output m ord (?sent @ prompts_of (take i rows)) (rows ! i) = Inr (outs ! i))" ..
  have step: "process_rows m ord (row # rows) (analyzed_data, sent)
      = process_rows m ord rows (analyzed_data @ [out], ?sent)"
    using out analysis_of_sent [of m ord sent row]
    by (cases "analysis_of m ord sent row") (simp add: row_output_def)
  have nth: "\<forall>i<length (row # rows).
      row_output m ord (sent @ prompts_of (take i (row # rows))) ((row # rows) ! i)
        = Inr ((out # outs) ! i)"
  proof (intro allI impI)
    fix i assume i: "i < length (row # rows)"
    show "row_output m ord (sent @ prompts_of (take i (row # rows))) ((row # rows) ! i)
        = Inr ((out # outs) ! i)"
    proof (cases i)
      case 0
      then show ?thesis using out by (simp add: prompts_of_def)
    next
      case (Suc j)
      with i have "j < length rows" by simp
      with ih have "row_output m ord (?sent @ prompts_of (take j rows)) (rows ! j) = Inr (outs ! j)"
        by simp
      then show ?thesis
        using Suc prompts_of_Cons [of row "take j rows"] by simp
    qed
  qed
  from ih have "process_rows m ord rows (analyzed_data @ [out], ?sent)
      = Inr (analyzed_data @ out # outs, sent @ prompts_of (row # rows))"
    by (simp add: prompts_of_Cons [of row rows])
  with step have main: "process_rows m ord (row # rows) (analyzed_data, sent)
      = Inr (analyzed_data @ out # outs, sent @ prompts_of (row # rows))"
    by (simp only:)
  from ih have len: "length (out # outs) = length (row # rows)" by simp
  show ?case
    using main len nth by (intro exI [of _ "out # outs"] conjI)
qed

lemma process_file_result:
  "\<exists>outs. process_file m ord (Inr rows) = Inr (outs, prompts_of rows) \<and>
          length outs = length rows \<and>
          (\<forall>i<length rows.
             row_output m ord (prompts_of (take i rows)) (rows ! i) = Inr (outs ! i))"
  using process_rows_result [of m ord rows "[]" "[]"] by (simp add: process_file_def)
section \<open>The contact extractor\<close>

lemma extract_phones:
  "extract_contact_info ord t ''phones'' = Some (list_of_set ord (findall phone_pattern t))"
  by (simp add: extract_contact_info_def Let_def)

lemma extract_emails:
  "extract_contact_info ord t ''emails'' = Some (list_of_set ord (findall email_pattern t))"
  by (simp add: extract_contact_info_def Let_def)

lemma findall_phone_empty: "findall phone_pattern [] = []"
  by code_simp

lemma findall_email_empty: "findall email_pattern [] = []"
  by code_simp

lemma findall_email_bar: "findall email_pattern ''a@b.c|d'' = [''a@b.c|d'']"
  by code_simp

lemma final_label_bar: "final_label ''a@b.c|d'' = ''c|d''"
  by code_simp

text \<open>Two matches that differ in case only are two entries.\<close>

lemma extract_keeps_case:
  "set (the (extract_contact_info ord ''A@b.co a@b.co'' ''emails'')) = {''A@b.co'', ''a@b.co''} \<and>
   length (the (extract_contact_info ord ''A@b.co a@b.co'' ''emails'')) = 2"
proof -
  have f: "findall email_pattern ''A@b.co a@b.co'' = [''A@b.co'', ''a@b.co'']"
    by code_simp
  have d: "distinct (list_of_set ord [''A@b.co'', ''a@b.co''])"
    by (rule list_of_set_distinct)
  have s: "set (list_of_set ord [''A@b.co'', ''a@b.co'']) = {''A@b.co'', ''a@b.co''}"
    by (simp add: list_of_set_set)
  from d s have "length (list_of_set ord [''A@b.co'', ''a@b.co'']) = 2"
    using distinct_card [OF d] by simp
  with s show ?thesis by (simp add: extract_emails f)
qed

text \<open>
  C8. Whatever the text and whatever order the sets are read in, the phones and the emails
  that \<open>extract_contact_info\<close> returns hold no entry twice, two entries being the same
  when they are the same string, character by character; each list holds exactly the
  strings that the pattern matched.
\<close>

theorem extract_no_duplicates:
  "\<exists>ps es. extract_contact_info ord text ''phones'' = Some ps \<and>
           extract_contact_info ord text ''emails'' = Some es \<and>
           distinct ps \<and> distinct es \<and>
           set ps = set (findall phone_pattern text) \<and>
           set es = set (findall email_pattern text)"
  by (simp add: extract_phones extract_emails list_of_set_distinct list_of_set_set)

text \<open>
  C9. On the empty text \<open>extract_contact_info\<close> returns an empty list of phones and an
  empty list of emails; it is a total function and has no error to return.
\<close>

theorem extract_empty:
  "extract_contact_info ord '''' ''phones'' = Some [] \<and>
   extract_contact_info ord '''' ''emails'' = Some []"
  by (simp add: extract_phones extract_emails findall_phone_empty findall_email_empty
        list_of_set_def arrange_Nil)

text \<open>
  C10. The last class of the email pattern, \<open>[A-Z|a-z]\<close>, holds the bar besides the
  letters, and there is a text, \<open>a@b.c|d\<close>, from which \<open>extract_contact_info\<close>
  returns an email whose last label, \<open>c|d\<close>, holds a bar.
\<close>

theorem email_with_bar:
  "extract_contact_info ord ''a@b.c|d'' ''emails'' = Some [''a@b.c|d''] \<and>
   final_label ''a@b.c|d'' = ''c|d'' \<and> CHR ''|'' \<in> set (final_label ''a@b.c|d'') \<and>
   tld_char (CHR ''|'') \<and> \<not> is_upper (CHR ''|'') \<and> \<not> is_lower (CHR ''|'')"
proof -
  have "extract_contact_info ord ''a@b.c|d'' ''emails'' = Some [''a@b.c|d'']"
    by (simp add: extract_emails findall_email_bar list_of_set_def arrange_single)
  moreover have "tld_char (CHR ''|'') \<and> \<not> is_upper (CHR ''|'') \<and> \<not> is_lower (CHR ''|'')"
    by (simp add: tld_char_def is_upper_def is_lower_def code_def)
  ultimately show ?thesis
    by (simp add: final_label_bar)
qed

section \<open>The batch: rows, failures and blank content\<close>

lemma row_output_empty:
  assumes "fst (analysis_of m ord sent row) = create_empty_result"
    and "row_output m ord sent row = Inr out"
  shows "out ''Primary_Services'' = Some (Str '''') \<and>
         out ''Secondary_Services'' = Some (Str '''') \<and>
         out ''Additional_Services'' = Some (Str '''') \<and>
         out ''Extracted_Phones'' = Some (Str '''') \<and>
         out ''Extracted_Emails'' = Some (Str '''')"
proof -
  from processed_row_ok [OF dom_create_empty_result, of row] assms
  show ?thesis
    unfolding row_output_def
    by (elim exE conjE) (simp add: create_empty_result_def)
qed

text \<open>
  C1, as the code has it. A row whose \<open>All_Content\<close> is not blank and whose model call
  raises gets the empty result of the \<open>except\<close> branch of \<open>analyze_content\<close>: the
  three service fields and also \<open>Extracted_Phones\<close> and \<open>Extracted_Emails\<close> are empty
  strings, since the contacts are extracted inside \<open>_parse_detailed_response\<close>, which
  a failed call never reaches.
\<close>

theorem model_failure_fields_empty:
  assumes "i < length rows"
    and "strip (all_content (rows ! i)) \<noteq> []"
    and "m (prompts_of (take i rows)) (prompt (all_content (rows ! i))) = Inl e"
  shows "\<exists>outs. process_file m ord (Inr rows) = Inr (outs, prompts_of rows) \<and>
           length outs = length rows \<and>
           (outs ! i) ''Primary_Services'' = Some (Str '''') \<and>
           (outs ! i) ''Secondary_Services'' = Some (Str '''') \<and>
           (outs ! i) ''Additional_Services'' = Some (Str '''') \<and>
           (outs ! i) ''Extracted_Phones'' = Some (Str '''') \<and>
           (outs ! i) ''Extracted_Emails'' = Some (Str '''')"
proof -
  from process_file_result [of m ord rows] obtain outs where
    run: "process_file m ord (Inr rows) = Inr (outs, prompts_of rows) \<and>
          length outs = length rows \<and>
          (\<forall>i<length rows.
             row_output m ord (prompts_of (take i rows)) (rows ! i) = Inr (outs ! i))" ..
  with assms(1) have out:
    "row_output m ord (prompts_of (take i rows)) (rows ! i) = Inr (outs ! i)" by simp
  have "fst (analysis_of m ord (prompts_of (take i rows)) (rows ! i)) = create_empty_result"
    using assms(2,3) by (simp add: analysis_of_raised)
  from row_output_empty [OF this out] run show ?thesis
    by (intro exI [of _ outs]) simp
qed

lemma brake_not_blank: "strip (all_content brake_row) \<noteq> []"
  by code_simp

lemma brake_phones: "findall phone_pattern brake_content = [''555-123-4567'']"
  by code_simp

lemma brake_emails: "findall email_pattern brake_content = [''info@example.com'']"
  by code_simp

theorem model_failure_fields_empty_witness:
  "\<exists>outs. process_file failing_model first_seen (Inr [brake_row]) = Inr (outs, prompts_of [brake_row]) \<and>
           length outs = 1 \<and>
           (outs ! 0) ''Primary_Services'' = Some (Str '''') \<and>
           (outs ! 0) ''Secondary_Services'' = Some (Str '''') \<and>
           (outs ! 0) ''Additional_Services'' = Some (Str '''') \<and>
           (outs ! 0) ''Extracted_Phones'' = Some (Str '''') \<and>
           (outs ! 0) ''Extracted_Emails'' = Some (Str '''')"
  using model_failure_fields_empty [of 0 "[brake_row]" failing_model "ModelError ''unavailable''" first_seen]
    brake_not_blank
  by (simp add: failing_model_def)

text \<open>
  The row of the example with a model that raises: the output has empty
  \<open>Extracted_Phones\<close> and \<open>Extracted_Emails\<close>, while the contacts extracted from its
  \<open>All_Content\<close> join to \<open>555-123-4567\<close> and \<open>info@example.com\<close>.
\<close>

theorem model_failure_contacts_counterexample:
  "output_cell (process_file failing_model first_seen (Inr [brake_row])) 0 ''Extracted_Phones''
     = Some (Str '''') \<and>
   output_cell (process_file failing_model first_seen (Inr [brake_row])) 0 ''Extracted_Emails''
     = Some (Str '''') \<and>
   map_option (join '', '') (extract_contact_info first_seen (all_content brake_row) ''phones'')
     = Some ''555-123-4567'' \<and>
   map_option (join '', '') (extract_contact_info first_seen (all_content brake_row) ''emails'')
     = Some ''info@example.com''"
proof -
  have c: "all_content brake_row = brake_content"
    by (simp add: all_content_def brake_row_def get_default_def)
  have a: "analysis_of failing_model first_seen [] brake_row
        = (create_empty_result, [prompt (all_content brake_row)])"
    using brake_not_blank by (simp add: analysis_of_raised failing_model_def)
  obtain out where o: "row_output failing_model first_seen [] brake_row = Inr out"
    using row_output_ok [of failing_model first_seen "[]" brake_row] ..
  from row_output_empty [OF _ o] a have f: "out ''Extracted_Phones'' = Some (Str '''')"
    "out ''Extracted_Emails'' = Some (Str '''')" by simp_all
  from o a have "process_file failing_model first_seen (Inr [brake_row])
      = Inr ([out], [prompt (all_content brake_row)])"
    by (simp add: process_file_def row_output_def)
  then have "output_cell (process_file failing_model first_seen (Inr [brake_row])) 0 ''Extracted_Phones''
     = Some (Str '''')"
    "output_cell (process_file failing_model first_seen (Inr [brake_row])) 0 ''Extracted_Emails''
     = Some (Str '''')"
    using f by (simp_all add: output_cell_def)
  moreover have "map_option (join '', '') (extract_contact_info first_seen (all_content brake_row) ''phones'')
     = Some ''555-123-4567''"
    by (simp add: c extract_phones brake_phones list_of_set_def arrange_single)
  moreover have "map_option (join '', '') (extract_contact_info first_seen (all_content brake_row) ''emails'')
     = Some ''info@example.com''"
    by (simp add: c extract_emails brake_emails list_of_set_def arrange_single)
  ultimately show ?thesis by (simp only: simp_thms)
qed

lemma prompts_of_append: "prompts_of (xs @ ys) = prompts_of xs @ prompts_of ys"
  by (simp add: prompts_of_def)

text \<open>
  C7. For a row whose \<open>All_Content\<close>, made a string and stripped, is empty, the five
  analysis fields of its output row are empty strings and no model call is made: the
  loop body returns the prompts sent so far unchanged, and the prompts sent up to and
  including this row are those sent before it.
\<close>

theorem blank_row_no_call:
  assumes "i < length rows"
    and "strip (all_content (rows ! i)) = []"
  shows "\<exists>outs. process_file m ord (Inr rows) = Inr (outs, prompts_of rows) \<and>
           length outs = length rows \<and>
           (outs ! i) ''Primary_Services'' = Some (Str '''') \<and>
           (outs ! i) ''Secondary_Services'' = Some (Str '''') \<and>
           (outs ! i) ''Additional_Services'' = Some (Str '''') \<and>
           (outs ! i) ''Extracted_Phones'' = Some (Str '''') \<and>
           (outs ! i) ''Extracted_Emails'' = Some (Str '''') \<and>
           analysis_of m ord (prompts_of (take i rows)) (rows ! i)
             = (create_empty_result, prompts_of (take i rows)) \<and>
           prompts_of (take (Suc i) rows) = prompts_of (take i rows)"
proof -
  from process_file_result [of m ord rows] obtain outs where
    run: "process_file m ord (Inr rows) = Inr (outs, prompts_of rows) \<and>
          length outs = length rows \<and>
          (\<forall>i<length rows.
             row_output m ord (prompts_of (take i rows)) (rows ! i) = Inr (outs ! i))" ..
  with assms(1) have out:
    "row_output m ord (prompts_of (take i rows)) (rows ! i) = Inr (outs ! i)" by simp
  have a: "analysis_of m ord (prompts_of (take i rows)) (rows ! i)
             = (create_empty_result, prompts_of (take i rows))"
    using assms(2) by (rule analysis_of_blank)
  then have "fst (analysis_of m ord (prompts_of (take i rows)) (rows ! i)) = create_empty_result"
    by simp
  note f = row_output_empty [OF this out]
  have "take (Suc i) rows = take i rows @ [rows ! i]"
    using assms(1) by (rule take_Suc_conv_app_nth)
  then have p: "prompts_of (take (Suc i) rows) = prompts_of (take i rows)"
    using assms(2) by (simp add: prompts_of_append) (simp add: prompts_of_def)
  from f run a p show ?thesis
    by (intro exI [of _ outs]) simp
qed

lemma blank_row_blank: "strip (all_content blank_row) = []"
  by code_simp

theorem blank_row_no_call_witness:
  "\<exists>outs. process_file failing_model first_seen (Inr [brake_row, blank_row])
             = Inr (outs, prompts_of [brake_row, blank_row]) \<and>
           length outs = 2 \<and>
           (outs ! 1) ''Primary_Services'' = Some (Str '''') \<and>
           (outs ! 1) ''Secondary_Services'' = Some (Str '''') \<and>
           (outs ! 1) ''Additional_Services'' = Some (Str '''') \<and>
           (outs ! 1) ''Extracted_Phones'' = Some (Str '''') \<and>
           (outs ! 1) ''Extracted_Emails'' = Some (Str '''') \<and>
           analysis_of failing_model first_seen (prompts_of [brake_row]) blank_row
             = (create_empty_result, prompts_of [brake_row]) \<and>
           prompts_of [brake_row, blank_row] = prompts_of [brake_row]"
  using blank_row_no_call [of 1 "[brake_row, blank_row]" failing_model first_seen] blank_row_blank
  by (simp add: numeral_2_eq_2)

text \<open>
  C4. \<open>process_file\<close> returns one output row for each input row, in the order of the
  input, whatever the model does: the prompts it sends are those of the rows that are not
  blank, in input order; output row \<open>i\<close> is computed from input row \<open>i\<close> alone (the
  model being asked with the prompts of the earlier rows behind it) and carries its seven
  original columns; and a row whose model call raises has empty service fields.
\<close>

theorem process_file_row_for_row:
  "\<exists>outs. process_file m ord (Inr rows) = Inr (outs, prompts_of rows) \<and>
     length outs = length rows \<and>
     (\<forall>i<length rows.
        row_output m ord (prompts_of (take i rows)) (rows ! i) = Inr (outs ! i) \<and>
        (outs ! i) ''Name'' = Some (get_default (rows ! i) ''Name'' (Str '''')) \<and>
        (outs ! i) ''Address'' = Some (get_default (rows ! i) ''Address'' (Str '''')) \<and>
        (outs ! i) ''Rating_text'' = Some (get_default (rows ! i) ''Rating_text'' (Str '''')) \<and>
        (outs ! i) ''Opening_Time'' = Some (get_default (rows ! i) ''Opening_Time'' (Str '''')) \<and>
        (outs ! i) ''Phone_Number'' = Some (get_default (rows ! i) ''Phone_Number'' (Str '''')) \<and>
        (outs ! i) ''GMAP'' = Some (get_default (rows ! i) ''GMAP'' (Str '''')) \<and>
        (outs ! i) ''Website'' = Some (get_default (rows ! i) ''Website'' (Str '''')) \<and>
        (strip (all_content (rows ! i)) \<noteq> [] \<and>
         (\<exists>e. m (prompts_of (take i rows)) (prompt (all_content (rows ! i))) = Inl e) \<longrightarrow>
           (outs ! i) ''Primary_Services'' = Some (Str '''') \<and>
           (outs ! i) ''Secondary_Services'' = Some (Str '''') \<and>
           (outs ! i) ''Additional_Services'' = Some (Str '''')))"
proof -
  from process_file_result [of m ord rows] obtain outs where
    run: "process_file m ord (Inr rows) = Inr (outs, prompts_of rows) \<and>
          length outs = length rows \<and>
          (\<forall>i<length rows.
             row_output m ord (prompts_of (take i rows)) (rows ! i) = Inr (outs ! i))" ..
  have "\<forall>i<length rows.
        row_output m ord (prompts_of (take i rows)) (rows ! i) = Inr (outs ! i) \<and>
        (outs ! i) ''Name'' = Some (get_default (rows ! i) ''Name'' (Str '''')) \<and>
        (outs ! i) ''Address'' = Some (get_default (rows ! i) ''Address'' (Str '''')) \<and>
        (outs ! i) ''Rating_text'' = Some (get_default (rows ! i) ''Rating_text'' (Str '''')) \<and>
        (outs ! i) ''Opening_Time'' = Some (get_default (rows ! i) ''Opening_Time'' (Str '''')) \<and>
        (outs ! i) ''Phone_Number'' = Some (get_default (rows ! i) ''Phone_Number'' (Str '''')) \<and>
        (outs ! i) ''GMAP'' = Some (get_default (rows ! i) ''GMAP'' (Str '''')) \<and>
        (outs ! i) ''Website'' = Some (get_default (rows ! i) ''Website'' (Str '''')) \<and>
        (strip (all_content (rows ! i)) \<noteq> [] \<and>
         (\<exists>e. m (prompts_of (take i rows)) (prompt (all_content (rows ! i))) = Inl e) \<longrightarrow>
           (outs ! i) ''Primary_Services'' = Some (Str '''') \<and>
           (outs ! i) ''Secondary_Services'' = Some (Str '''') \<and>
           (outs ! i) ''Additional_Services'' = Some (Str ''''))"
  proof (intro allI impI)
    fix i assume i: "i < length rows"
    let ?sent = "prompts_of (take i rows)"
    from run i have out: "row_output m ord ?sent (rows ! i) = Inr (outs ! i)" by simp
    from processed_row_ok [OF analysis_of_dom, of "rows ! i" m ord ?sent "rows ! i"] out
    have cols: "(outs ! i) ''Name'' = Some (get_default (rows ! i) ''Name'' (Str '''')) \<and>
        (outs ! i) ''Address'' = Some (get_default (rows ! i) ''Address'' (Str '''')) \<and>
        (outs ! i) ''Rating_text'' = Some (get_default (rows ! i) ''Rating_text'' (Str '''')) \<and>
        (outs ! i) ''Opening_Time'' = Some (get_default (rows ! i) ''Opening_Time'' (Str '''')) \<and>
        (outs ! i) ''Phone_Number'' = Some (get_default (rows ! i) ''Phone_Number'' (Str '''')) \<and>
        (outs ! i) ''GMAP'' = Some (get_default (rows ! i) ''GMAP'' (Str '''')) \<and>
        (outs ! i) ''Website'' = Some (get_default (rows ! i) ''Website'' (Str ''''))"
      unfolding row_output_def by (elim exE conjE) simp
    have fail: "strip (all_content (rows ! i)) \<noteq> [] \<and>
         (\<exists>e. m ?sent (prompt (all_content (rows ! i))) = Inl e) \<longrightarrow>
           (outs ! i) ''Primary_Services'' = Some (Str '''') \<and>
           (outs ! i) ''Secondary_Services'' = Some (Str '''') \<and>
           (outs ! i) ''Additional_Services'' = Some (Str '''')"
    proof
      assume h: "strip (all_content (rows ! i)) \<noteq> [] \<and>
         (\<exists>e. m ?sent (prompt (all_content (rows ! i))) = Inl e)"
      then obtain e where "m ?sent (prompt (all_content (rows ! i))) = Inl e" by (elim conjE exE)
      with h have "fst (analysis_of m ord ?sent (rows ! i)) = create_empty_result"
        by (simp add: analysis_of_raised)
      from row_output_empty [OF this out] show
        "(outs ! i) ''Primary_Services'' = Some (Str '''') \<and>
           (outs ! i) ''Secondary_Services'' = Some (Str '''') \<and>
           (outs ! i) ''Additional_Services'' = Some (Str '''')" by simp
    qed
    from out cols fail show
      "row_output m ord (prompts_of (take i rows)) (rows ! i) = Inr (outs ! i) \<and>
        (outs ! i) ''Name'' = Some (get_default (rows ! i) ''Name'' (Str '''')) \<and>
        (outs ! i) ''Address'' = Some (get_default (rows ! i) ''Address'' (Str '''')) \<and>
        (outs ! i) ''Rating_text'' = Some (get_default (rows ! i) ''Rating_text'' (Str '''')) \<and>
        (outs ! i) ''Opening_Time'' = Some (get_default (rows ! i) ''Opening_Time'' (Str '''')) \<and>
        (outs ! i) ''Phone_Number'' = Some (get_default (rows ! i) ''Phone_Number'' (Str '''')) \<and>
        (outs ! i) ''GMAP'' = Some (get_default (rows ! i) ''GMAP'' (Str '''')) \<and>
        (outs ! i) ''Website'' = Some (get_default (rows ! i) ''Website'' (Str '''')) \<and>
        (strip (all_content (rows ! i)) \<noteq> [] \<and>
         (\<exists>e. m (prompts_of (take i rows)) (prompt (all_content (rows ! i))) = Inl e) \<longrightarrow>
           (outs ! i) ''Primary_Services'' = Some (Str '''') \<and>
           (outs ! i) ''Secondary_Services'' = Some (Str '''') \<and>
           (outs ! i) ''Additional_Services'' = Some (Str ''''))"
      by (simp only: simp_thms)
  qed
  with run show ?thesis
    by (intro exI [of _ outs]) (simp only: simp_thms)
qed

lemma batch_second_not_blank: "strip (all_content (batch ! 1)) \<noteq> []"
  by code_simp

lemma batch_second_raises:
  "scripted_model (prompts_of (take 1 batch)) (prompt (all_content (batch ! 1)))
     = Inl (ModelError ''quota'')"
  by code_simp

lemma batch_first_primary:
  "output_cell (process_file scripted_model first_seen (Inr batch)) 0 ''Primary_Services''
     = Some (Str ''Oil change'')"
  by code_simp

lemma batch_third_primary:
  "output_cell (process_file scripted_model first_seen (Inr batch)) 2 ''Primary_Services''
     = Some (Str ''Oil change'')"
  by code_simp

theorem process_file_row_for_row_witness:
  "\<exists>outs. process_file scripted_model first_seen (Inr batch) = Inr (outs, prompts_of batch) \<and>
     length outs = 3 \<and>
     (outs ! 0) ''Name'' = Some (Str ''A'') \<and>
     (outs ! 1) ''Name'' = Some (Str ''B'') \<and>
     (outs ! 2) ''Name'' = Some (Str ''C'') \<and>
     (outs ! 0) ''Primary_Services'' = Some (Str ''Oil change'') \<and>
     (outs ! 1) ''Primary_Services'' = Some (Str '''') \<and>
     (outs ! 1) ''Secondary_Services'' = Some (Str '''') \<and>
     (outs ! 1) ''Additional_Services'' = Some (Str '''') \<and>
     (outs ! 2) ''Primary_Services'' = Some (Str ''Oil change'')"
proof -
  have len: "length batch = 3" by (simp add: batch_def)
  from process_file_row_for_row [of scripted_model first_seen batch] obtain outs where
    run: "process_file scripted_model first_seen (Inr batch) = Inr (outs, prompts_of batch)"
    and n: "length outs = length batch"
    and rows: "\<And>i. i < length batch \<Longrightarrow>
        (outs ! i) ''Name'' = Some (get_default (batch ! i) ''Name'' (Str ''''))"
    and failed: "strip (all_content (batch ! 1)) \<noteq> [] \<and>
         (\<exists>e. scripted_model (prompts_of (take 1 batch)) (prompt (all_content (batch ! 1))) = Inl e) \<longrightarrow>
           (outs ! 1) ''Primary_Services'' = Some (Str '''') \<and>
           (outs ! 1) ''Secondary_Services'' = Some (Str '''') \<and>
           (outs ! 1) ''Additional_Services'' = Some (Str '''')"
    using len by (elim exE conjE) simp
  have names: "(outs ! 0) ''Name'' = Some (Str ''A'')" "(outs ! 1) ''Name'' = Some (Str ''B'')"
    "(outs ! 2) ''Name'' = Some (Str ''C'')"
    using rows [of 0] rows [of 1] rows [of 2] by (simp_all add: batch_def get_default_def)
  from failed batch_second_not_blank batch_second_raises
  have second: "(outs ! 1) ''Primary_Services'' = Some (Str '''') \<and>
           (outs ! 1) ''Secondary_Services'' = Some (Str '''') \<and>
           (outs ! 1) ''Additional_Services'' = Some (Str '''')"
    by simp
  have first: "(outs ! 0) ''Primary_Services'' = Some (Str ''Oil change'')"
    using batch_first_primary n len by (simp add: run output_cell_def split: if_splits)
  have third: "(outs ! 2) ''Primary_Services'' = Some (Str ''Oil change'')"
    using batch_third_primary n len by (simp add: run output_cell_def split: if_splits)
  from run n len names first second third show ?thesis
    by (intro exI [of _ outs]) simp
qed


section \<open>The response parser: capture, tidying and absent headers\<close>

lemma list_all_upt_Suc:
  "list_all P [0 ..< Suc n] = (P 0 \<and> list_all (\<lambda>j. P (Suc j)) [0 ..< n])"
proof -
  have "[0 ..< Suc n] = 0 # map Suc [0 ..< n]"
    by (metis map_Suc_upt upt_conv_Cons zero_less_Suc)
  then show ?thesis by (simp add: list.pred_map o_def del: upt_Suc)
qed

lemma after_first_None: "(after_first h r = None) = (\<not> occurs_i h r)"
  by (induction r) simp_all

lemma first_at_after_first:
  "first_at h r n \<Longrightarrow> after_first h r = Some (drop (n + length h) r)"
proof (induction n arbitrary: r)
  case 0
  then show ?case by (cases r) (simp_all add: first_at_def)
next
  case (Suc n)
  from Suc.prems have s: "starts_with_i h (drop (Suc n) r)" and no: "\<not> starts_with_i h r"
    and later: "list_all (\<lambda>j. \<not> starts_with_i h (drop (Suc j) r)) [0 ..< n]"
    by (simp_all add: first_at_def list_all_upt_Suc del: upt_Suc)
  show ?case
  proof (cases r)
    case Nil
    with s no show ?thesis by simp
  next
    case (Cons c cs)
    with s later have "first_at h cs n" by (simp add: first_at_def)
    from Suc.IH [OF this] no Cons show ?thesis by simp
  qed
qed

lemma body_end_captured: "body_end s k \<Longrightarrow> captured_body s = take k s"
proof (induction k arbitrary: s)
  case 0
  then show ?case by (cases s) (simp_all add: body_end_def)
next
  case (Suc k)
  from Suc.prems have s: "stop_here (drop (Suc k) s)" and no: "\<not> stop_here s"
    and later: "list_all (\<lambda>j. \<not> stop_here (drop (Suc j) s)) [0 ..< k]"
    by (simp_all add: body_end_def list_all_upt_Suc del: upt_Suc)
  show ?case
  proof (cases s)
    case Nil
    with no show ?thesis by (simp add: stop_here_def)
  next
    case (Cons c cs)
    with s later have "body_end cs k" by (simp add: body_end_def)
    from Suc.IH [OF this] no Cons show ?thesis by simp
  qed
qed

text \<open>
  C2, as the code has it. Whatever the response and the header: when the first occurrence
  of the header, read without regard to case, starts at position \<open>n\<close>, the pattern
  captures the text that follows it up to the first position where one of the three headers
  starts, in whatever order they stand, or where the text ends, or where only a final
  line break is left, which the \<open>$\<close> of the pattern accepts too; the text may span
  line breaks.
\<close>

theorem section_capture:
  assumes "first_at header r n"
    and "body_end (drop (n + length header) r) k"
  shows "\<exists>p cs. search (section_pattern header) r
           = Some (p, cs, Some (take k (drop (n + length header) r)))"
proof -
  from assms(1) have a: "after_first header r = Some (drop (n + length header) r)"
    by (rule first_at_after_first)
  from assms(2) have b: "captured_body (drop (n + length header) r) = take k (drop (n + length header) r)"
    by (rule body_end_captured)
  from search_section_cases [of header r] a b show ?thesis
    by (elim disjE exE conjE) simp_all
qed

lemma shuffled_first_at: "first_at ''Primary Services:'' shuffled_response 23"
  by code_simp

lemma shuffled_body_end: "body_end (drop (23 + length ''Primary Services:'') shuffled_response) 3"
  by code_simp

lemma shuffled_body: "take 3 (drop (23 + length ''Primary Services:'') shuffled_response) = '' a'' @ [NL]"
  by code_simp

theorem section_capture_witness:
  "\<exists>p cs. search (section_pattern ''Primary Services:'') shuffled_response
           = Some (p, cs, Some ('' a'' @ [NL]))"
  using section_capture [OF shuffled_first_at shuffled_body_end] shuffled_body
  by simp

text \<open>
  In \<open>Primary Services:a\<close> followed by a line break, no header follows and the text
  after the header up to the end of the text is \<open>a\<close> with the line break; the
  pattern captures \<open>a\<close> alone.
\<close>

theorem section_capture_counterexample:
  "search (section_pattern ''Primary Services:'') (''Primary Services:a'' @ [NL])
     = Some (Some (CHR ''a''), [NL], Some ''a'') \<and>
   after_first ''Primary Services:'' (''Primary Services:a'' @ [NL]) = Some (''a'' @ [NL]) \<and>
   spec_text_to_next_marker (''a'' @ [NL]) = ''a'' @ [NL] \<and>
   ''a'' \<noteq> ''a'' @ [NL]"
  by code_simp

text \<open>
  C3. Whatever the response and the raw text, \<open>_parse_detailed_response\<close> returns a
  result, never an exception, and the keys of the result are exactly the five fields, each
  bound to a string.
\<close>

theorem parse_five_fields:
  "\<exists>res. parse_detailed_response ord r t = Inr res \<and>
     dom res = {''primary_services'', ''secondary_services'', ''additional_services'',
                ''phones'', ''emails''}"
  using parse_detailed_response_result [of ord r t]
  by (elim exE conjE) (rule exI, rule conjI)

theorem parse_five_fields_witness:
  "\<exists>res. parse_detailed_response first_seen partial_response brake_content = Inr res \<and>
     dom res = {''primary_services'', ''secondary_services'', ''additional_services'',
                ''phones'', ''emails''}"
  using parse_five_fields [of first_seen partial_response brake_content] .

lemma section_field_absent: "\<not> occurs_i h r \<Longrightarrow> section_field h r = ''''"
  using after_first_None [of h r] by (simp add: section_field_def)

text \<open>
  C6. When one of the three headers does not occur in the response, parsing still returns
  a result, the field of that header is the empty string, and every service field is what
  its own header gives: the tidied text after it, or the empty string.
\<close>

theorem absent_marker_empty_field:
  assumes "(key, header) \<in> set service_sections"
    and "\<not> occurs_i header r"
  shows "\<exists>res. parse_detailed_response ord r t = Inr res \<and>
           res key = Some '''' \<and>
           res ''primary_services'' = Some (section_field ''Primary Services:'' r) \<and>
           res ''secondary_services'' = Some (section_field ''Secondary Services:'' r) \<and>
           res ''additional_services'' = Some (section_field ''Additional Services:'' r)"
proof -
  from parse_detailed_response_result [of ord r t] obtain res where
    res: "parse_detailed_response ord r t = Inr res"
    and f: "res ''primary_services'' = Some (section_field ''Primary Services:'' r)"
      "res ''secondary_services'' = Some (section_field ''Secondary Services:'' r)"
      "res ''additional_services'' = Some (section_field ''Additional Services:'' r)"
    by (elim exE conjE)
  from assms(1) have "key = ''primary_services'' \<and> header = ''Primary Services:''
      \<or> key = ''secondary_services'' \<and> header = ''Secondary Services:''
      \<or> key = ''additional_services'' \<and> header = ''Additional Services:''"
    by (simp add: service_sections_def)
  with f section_field_absent [OF assms(2)] have "res key = Some ''''"
    by (elim disjE conjE) simp_all
  with res f show ?thesis
    by (intro exI [of _ res]) (simp only: simp_thms)
qed

lemma partial_no_secondary: "\<not> occurs_i ''Secondary Services:'' partial_response"
  by code_simp

lemma partial_primary: "section_field ''Primary Services:'' partial_response = ''Oil change''"
  by code_simp

lemma partial_additional: "section_field ''Additional Services:'' partial_response = ''wash''"
  by code_simp

theorem absent_marker_empty_field_witness:
  "\<exists>res. parse_detailed_response first_seen partial_response brake_content = Inr res \<and>
           res ''secondary_services'' = Some '''' \<and>
           res ''primary_services'' = Some ''Oil change'' \<and>
           res ''additional_services'' = Some ''wash''"
proof -
  have "(''secondary_services'', ''Secondary Services:'') \<in> set service_sections"
    by (simp add: service_sections_def)
  from absent_marker_empty_field [OF this partial_no_secondary, of first_seen brake_content]
  obtain res where "parse_detailed_response first_seen partial_response brake_content = Inr res"
    and "res ''secondary_services'' = Some ''''"
    and "res ''primary_services'' = Some (section_field ''Primary Services:'' partial_response)"
    and "res ''additional_services'' = Some (section_field ''Additional Services:'' partial_response)"
    by (elim exE conjE)
  then show ?thesis
    by (intro exI [of _ res]) (simp only: partial_primary partial_additional simp_thms)
qed

lemma strip_chars_all:
  assumes "set lb \<subseteq> set chars" and "set rb \<subseteq> set chars"
    and "core = [] \<or> (hd core \<notin> set chars \<and> last core \<notin> set chars)"
  shows "strip_chars chars (lb @ core @ rb) = core"
proof -
  let ?P = "\<lambda>c. c \<in> set chars"
  from assms(1) have l: "dropWhile ?P (lb @ core @ rb) = dropWhile ?P (core @ rb)"
    by (intro dropWhile_append2) auto
  show ?thesis
  proof (cases "core = []")
    case True
    from assms(1,2) have "\<forall>x\<in>set (lb @ rb). ?P x" by auto
    then have "dropWhile ?P (lb @ rb) = []" by (simp only: dropWhile_eq_Nil_conv)
    with True show ?thesis by (simp only: strip_chars_def append_Nil rev.simps dropWhile.simps)
  next
    case False
    with assms(3) have h: "hd core \<notin> set chars" and e: "last core \<notin> set chars" by simp_all
    from False h have "dropWhile ?P (core @ rb) = core @ rb"
      by (cases core) simp_all
    with l have 1: "dropWhile ?P (lb @ core @ rb) = core @ rb" by simp
    from assms(2) have "dropWhile ?P (rev rb @ rev core) = dropWhile ?P (rev core)"
      by (intro dropWhile_append2) auto
    moreover from False e have "dropWhile ?P (rev core) = rev core"
      by (cases "rev core") (simp_all add: last_rev [symmetric] del: last_rev)
    ultimately show ?thesis
      by (simp add: strip_chars_def 1)
  qed
qed

lemma section_field_present:
  "after_first h r = Some rest \<Longrightarrow>
   section_field h r = replace_char NL '', '' (strip_chars ''[]'' (strip (captured_body rest)))"
  by (simp add: section_field_def)

text \<open>
  C5, as the code has it. The captured body is stripped of white space; then every
  leading and every trailing \<open>[\<close> or \<open>]\<close> goes, however many there are and of
  either kind at either end; then each line break becomes a comma and a space. So when the
  stripped body is brackets, a core with no bracket at either end, and brackets, the field
  is the core with its line breaks replaced.
\<close>

theorem brackets_stripped:
  assumes "(key, header) \<in> set service_sections"
    and "after_first header r = Some rest"
    and "strip (captured_body rest) = lb @ core @ rb"
    and "set lb \<subseteq> set ''[]''" and "set rb \<subseteq> set ''[]''"
    and "core = [] \<or> (hd core \<notin> set ''[]'' \<and> last core \<notin> set ''[]'')"
  shows "\<exists>res. parse_detailed_response ord r t = Inr res \<and>
           res key = Some (replace_char NL '', '' core)"
proof -
  from parse_detailed_response_result [of ord r t] obtain res where
    res: "parse_detailed_response ord r t = Inr res"
    and f: "res ''primary_services'' = Some (section_field ''Primary Services:'' r)"
      "res ''secondary_services'' = Some (section_field ''Secondary Services:'' r)"
      "res ''additional_services'' = Some (section_field ''Additional Services:'' r)"
    by (elim exE conjE)
  from assms(1) have "key = ''primary_services'' \<and> header = ''Primary Services:''
      \<or> key = ''secondary_services'' \<and> header = ''Secondary Services:''
      \<or> key = ''additional_services'' \<and> header = ''Additional Services:''"
    by (simp add: service_sections_def)
  with f have "res key = Some (section_field header r)"
    by (elim disjE conjE) simp_all
  also have "section_field header r = replace_char NL '', '' (strip_chars ''[]'' (lb @ core @ rb))"
    using assms(2,3) by (simp only: section_field_present)
  also have "strip_chars ''[]'' (lb @ core @ rb) = core"
    using assms(4-6) by (rule strip_chars_all)
  finally show ?thesis
    using res by (intro exI [of _ res]) (simp only: simp_thms)
qed

lemma bracketed_after:
  "after_first ''Primary Services:'' bracketed_response = Some '' [Oil change, Tire rotation]''"
  by code_simp

lemma bracketed_body:
  "strip (captured_body '' [Oil change, Tire rotation]'') = ''['' @ ''Oil change, Tire rotation'' @ '']''"
  by code_simp

lemma bracketed_flat:
  "replace_char NL '', '' ''Oil change, Tire rotation'' = ''Oil change, Tire rotation''"
  by code_simp

theorem brackets_stripped_witness:
  "\<exists>res. parse_detailed_response first_seen bracketed_response brake_content = Inr res \<and>
           res ''primary_services'' = Some ''Oil change, Tire rotation''"
proof -
  have k: "(''primary_services'', ''Primary Services:'') \<in> set service_sections"
    by (simp add: service_sections_def)
  have c: "''Oil change, Tire rotation'' = [] \<or>
      (hd ''Oil change, Tire rotation'' \<notin> set ''[]'' \<and> last ''Oil change, Tire rotation'' \<notin> set ''[]'')"
    by simp
  have b: "set ''['' \<subseteq> set ''[]''" "set '']'' \<subseteq> set ''[]''" by simp_all
  from brackets_stripped [OF k bracketed_after bracketed_body b c, of first_seen brake_content]
  show ?thesis
    by (simp only: bracketed_flat)
qed

text \<open>
  The body \<open>[[a]]\<close> loses both pairs of brackets and the field is \<open>a\<close>; removing one
  leading and one trailing bracket would leave \<open>[a]\<close>.
\<close>

theorem brackets_stripped_counterexample:
  "field (parse_detailed_response first_seen ''Primary Services: [[a]]'' '''') ''primary_services''
     = Some ''a'' \<and>
   after_first ''Primary Services:'' ''Primary Services: [[a]]'' = Some '' [[a]]'' \<and>
   captured_body '' [[a]]'' = '' [[a]]'' \<and>
   replace_char NL '', '' (spec_strip_one_pair (strip '' [[a]]'')) = ''[a]'' \<and>
   ''a'' \<noteq> ''[a]''"
  by code_simp

lemma is_space_NL: "is_space NL"
  by (simp add: is_space_def NL_def code_def)

lemma strip_final_newline: "strip (s @ [NL]) = strip s"
proof (cases "\<forall>x\<in>set s. is_space x")
  case True
  then have "dropWhile is_space s = []" by (simp only: dropWhile_eq_Nil_conv)
  moreover from True have "\<forall>x\<in>set (s @ [NL]). is_space x"
    by (simp add: is_space_NL)
  then have "dropWhile is_space (s @ [NL]) = []" by (simp only: dropWhile_eq_Nil_conv)
  ultimately show ?thesis by (simp only: strip_def)
next
  case False
  then have "dropWhile is_space (s @ [NL]) = dropWhile is_space s @ [NL]"
    by (simp add: dropWhile_append)
  then show ?thesis by (simp add: strip_def is_space_NL)
qed

lemma captured_body_or_newline:
  "spec_text_to_next_marker s = captured_body s \<or> spec_text_to_next_marker s = captured_body s @ [NL]"
proof (induction s)
  case Nil
  show ?case by simp
next
  case (Cons c cs)
  show ?case
  proof (cases "marker_here (c # cs)")
    case True
    then show ?thesis by (simp add: stop_here_def)
  next
    case False
    show ?thesis
    proof (cases "c # cs = [NL]")
      case True
      with False show ?thesis by (simp add: stop_here_def)
    next
      case n: False
      with False Cons.IH show ?thesis by (auto simp: stop_here_def)
    qed
  qed
qed

text \<open>
  The final line break that the capture leaves out does not show in the parsed field: the
  field is the same when the capture is taken to run to the end of the text.
\<close>

lemma section_field_spec_text:
  "section_field h r =
     (case after_first h r of
        None \<Rightarrow> ''''
      | Some rest \<Rightarrow> replace_char NL '', '' (strip_chars ''[]'' (strip (spec_text_to_next_marker rest))))"
proof (cases "after_first h r")
  case None
  then show ?thesis by (simp add: section_field_def)
next
  case (Some rest)
  from captured_body_or_newline [of rest]
  have "strip (spec_text_to_next_marker rest) = strip (captured_body rest)"
    by (elim disjE) (simp_all only: strip_final_newline)
  with Some show ?thesis by (simp add: section_field_def)
qed


end
